theory Spec2Isabelle
  imports Complex_Main "HOL-Library.List_Lexorder"
begin

section \<open>Strings\<close>

text \<open>
  A Python \<open>str\<close> is a sequence of Unicode code points. The crawler's title separator
  class holds the en-dash (U+2013) and the em-dash (U+2014), so an 8-bit character does
  not do: a code point is a natural number and a string is a list of them. A literal is
  written \<open>str ''mailto:''\<close>.
\<close>

type_synonym cp = nat
type_synonym ustr = "cp list"

abbreviation str :: "string \<Rightarrow> ustr" where
  "str s \<equiv> map of_char s"

text \<open>
  \<open>str.isspace\<close>, which \<open>str.strip()\<close>, \<open>str.split()\<close> and the pattern \<open>\s\<close> all
  use: the complete table.
\<close>

definition is_space :: "cp \<Rightarrow> bool" where
  "is_space c \<longleftrightarrow>
     (9 \<le> c \<and> c \<le> 13) \<or> (28 \<le> c \<and> c \<le> 32) \<or> c = 133 \<or> c = 160 \<or> c = 5760
     \<or> (8192 \<le> c \<and> c \<le> 8202) \<or> c = 8232 \<or> c = 8233 \<or> c = 8239 \<or> c = 8287
     \<or> c = 12288"

text \<open>
  The pattern \<open>\d\<close> on a \<open>str\<close> is any code point of category Nd. The runs of decimal
  digits (Unicode 14, the table of CPython 3.11): each entry is the code point of a zero
  and the length of the run that starts there.
\<close>

definition nd_runs :: "(cp \<times> nat) list" where
  "nd_runs =
     map (\<lambda>z. (z, 10))
       [1632, 1776, 1984, 2406, 2534, 2662, 2790, 2918, 3046, 3174, 3302, 3430, 3558,
        3664, 3792, 3872, 4160, 4240, 6112, 6160, 6470, 6608, 6784, 6800, 6992, 7088,
        7232, 7248, 42528, 43216, 43264, 43472, 43504, 43600, 44016, 65296, 66720, 68912,
        69734, 69872, 69942, 70096, 70384, 70736, 70864, 71248, 71360, 71472, 71904,
        72016, 72784, 73040, 73120, 92768, 92864, 93008]
     @ [(120782, 50), (123200, 10), (123632, 10), (125264, 10), (130032, 10)]"

definition is_digit :: "cp \<Rightarrow> bool" where
  "is_digit c \<longleftrightarrow>
     (if c < 128 then 48 \<le> c \<and> c \<le> 57
      else list_ex (\<lambda>(z, n). z \<le> c \<and> c < z + n) nd_runs)"

text \<open>
  \<open>str.lower()\<close>. The crawler only ever compares a lowered string with an ASCII literal
  (\<open>startswith\<close>, \<open>in\<close>), so what matters is which code points lower to ASCII: the letters
  A to Z, the Kelvin sign (U+212A, to \<open>k\<close>) and the dotted capital I (U+0130, to \<open>i\<close>
  followed by U+0307). Every other code point is kept; Python sends some of them to other
  code points, all of them outside ASCII.
\<close>

definition lower_cp :: "cp \<Rightarrow> ustr" where
  "lower_cp c =
     (if 65 \<le> c \<and> c \<le> 90 then [c + 32]
      else if c = 8490 then [107]
      else if c = 304 then [105, 775]
      else [c])"

definition lower :: "ustr \<Rightarrow> ustr" where
  "lower s = concat (map lower_cp s)"

definition startswith :: "ustr \<Rightarrow> ustr \<Rightarrow> bool" where
  "startswith s p \<longleftrightarrow> take (length p) s = p"

text \<open>\<open>p in s\<close> on strings: \<open>p\<close> occurs in \<open>s\<close> as a contiguous run.\<close>

fun contains :: "ustr \<Rightarrow> ustr \<Rightarrow> bool" where
  "contains [] p = (p = [])"
| "contains (c # cs) p = (startswith (c # cs) p \<or> contains cs p)"

definition strip :: "ustr \<Rightarrow> ustr" where
  "strip s = rev (dropWhile is_space (rev (dropWhile is_space s)))"

text \<open>\<open>s.replace(' ', '')\<close>: only the ASCII space goes.\<close>

definition remove_spaces :: "ustr \<Rightarrow> ustr" where
  "remove_spaces s = filter (\<lambda>c. c \<noteq> 32) s"

text \<open>
  \<open>href.split(':', 1)[1]\<close>: what follows the first colon. Both call sites are guarded by
  a \<open>startswith\<close> test on a literal that ends in a colon, so the list that \<open>split\<close>
  returns has its second element (lemma \<open>startswith_lower_colon\<close> below); without a colon
  the Python raises IndexError, and this function returns the empty string.
\<close>

definition after_colon :: "ustr \<Rightarrow> ustr" where
  "after_colon s = drop 1 (dropWhile (\<lambda>c. c \<noteq> 58) s)"

text \<open>\<open>s.split('?')[0]\<close>: what precedes the first question mark.\<close>

definition before_query :: "ustr \<Rightarrow> ustr" where
  "before_query s = takeWhile (\<lambda>c. c \<noteq> 63) s"

text \<open>\<open>re.sub(r"\D", "", s)\<close>.\<close>

definition digits_only :: "ustr \<Rightarrow> ustr" where
  "digits_only s = filter is_digit s"

section \<open>The document tree\<close>

text \<open>
  BeautifulSoup's tree: a tag has a name, a dictionary of attributes (here an association
  list read by \<open>map_of\<close>) and its children in order; a string node is a text or a comment.
  The \<open>BeautifulSoup\<close> object is itself a tag, named \<open>[document]\<close>, without attributes.
  An element reference \<open>el\<close> of the Python is an \<open>elem\<close>: the node together with
  \<open>el.parents\<close>, nearest first.
\<close>

datatype node = Tag ustr "(ustr \<times> ustr) list" "node list" | Text ustr | Comment ustr

type_synonym elem = "node list \<times> node"

fun tag_name :: "node \<Rightarrow> ustr option" where
  "tag_name (Tag n a cs) = Some n"
| "tag_name _ = None"

fun get_attr :: "node \<Rightarrow> ustr \<Rightarrow> ustr option" where
  "get_attr (Tag n a cs) k = map_of a k"
| "get_attr _ k = None"

definition has_name :: "node \<Rightarrow> ustr list \<Rightarrow> bool" where
  "has_name el ns \<longleftrightarrow> (case tag_name el of Some n \<Rightarrow> n \<in> set ns | None \<Rightarrow> False)"

text \<open>\<open>el.descendants\<close> in document order, each with its chain of parents.\<close>

fun descendants :: "node list \<Rightarrow> node \<Rightarrow> elem list" where
  "descendants anc (Tag n a cs) =
     concat (map (\<lambda>c. (Tag n a cs # anc, c) # descendants (Tag n a cs # anc) c) cs)"
| "descendants anc (Text t) = []"
| "descendants anc (Comment t) = []"

text \<open>\<open>soup.find_all(name)\<close> and \<open>soup([names])\<close>: the descendant tags with one of the names.\<close>

definition find_all :: "ustr list \<Rightarrow> node \<Rightarrow> elem list" where
  "find_all ns soup = filter (\<lambda>e. has_name (snd e) ns) (descendants [] soup)"

section \<open>Visibility\<close>

text \<open>
  The three attribute tests of \<open>_is_hidden\<close>, in the source's order: inline style with
  \<open>display:none\<close> once spaces are removed and the text lowered, \<open>aria-hidden="true"\<close>,
  an attribute \<open>hidden\<close> present.
\<close>

definition style_none :: "node \<Rightarrow> bool" where
  "style_none el \<longleftrightarrow>
     contains (lower (remove_spaces (case get_attr el (str ''style'') of Some s \<Rightarrow> s | None \<Rightarrow> [])))
       (str ''display:none'')"

definition attr_hidden :: "node \<Rightarrow> bool" where
  "attr_hidden el \<longleftrightarrow>
     (if style_none el then True
      else if get_attr el (str ''aria-hidden'') = Some (str ''true'') then True
      else if get_attr el (str ''hidden'') \<noteq> None then True
      else False)"

text \<open>The loop over \<open>elem.parents\<close>: a template ancestor hides, and so do the three tests.\<close>

fun parents_hidden :: "node list \<Rightarrow> bool" where
  "parents_hidden [] = False"
| "parents_hidden (el # els) =
     (if tag_name el = Some (str ''template'') then True
      else if attr_hidden el then True
      else parents_hidden els)"

text \<open>
  \<open>_is_hidden(elem)\<close>: the parents first, then ("also check self") the three attribute
  tests on the element itself. A tag is always truthy in BeautifulSoup, so the guard
  \<open>if not elem\<close> never fires on an element.
\<close>

definition is_hidden :: "elem \<Rightarrow> bool" where
  "is_hidden e =
     (if parents_hidden (fst e) then True
      else if attr_hidden (snd e) then True
      else False)"

section \<open>Regular expressions\<close>

text \<open>
  The two patterns of the module use character classes, concatenation, an optional group
  and greedy bounded or unbounded repetition of a class. \<open>rx_run r s\<close> lists what is left
  of \<open>s\<close> after each way \<open>r\<close> can match at its start, in the order the backtracking matcher
  of \<open>re\<close> tries them (greedy: longest repetition first, an optional group taken before
  it is skipped), so the head of the list is the match that \<open>re\<close> reports.
\<close>

datatype rx = Cls "cp \<Rightarrow> bool" | Cat rx rx | Opt rx | Rep nat "nat option" "cp \<Rightarrow> bool"

text \<open>
  Greedy repetition of a class, between \<open>lo\<close> and \<open>hi\<close> times (\<open>None\<close>: no upper bound):
  take one more character when the class and the bound allow it, and only then consider
  stopping here, which needs the lower bound to be met.
\<close>

fun rep_run :: "nat \<Rightarrow> nat option \<Rightarrow> (cp \<Rightarrow> bool) \<Rightarrow> ustr \<Rightarrow> ustr list" where
  "rep_run lo hi p [] = (if lo = 0 then [Nil] else [])"
| "rep_run lo hi p (c # cs) =
     (if p c \<and> hi \<noteq> Some 0 then rep_run (lo - 1) (map_option (\<lambda>h. h - 1) hi) p cs else [])
     @ (if lo = 0 then [c # cs] else [])"

fun rx_run :: "rx \<Rightarrow> ustr \<Rightarrow> ustr list" where
  "rx_run (Cls p) s = (case s of [] \<Rightarrow> [] | c # cs \<Rightarrow> if p c then [cs] else [])"
| "rx_run (Cat a b) s = concat (map (rx_run b) (rx_run a s))"
| "rx_run (Opt a) s = rx_run a s @ [s]"
| "rx_run (Rep lo hi p) s = rep_run lo hi p s"

text \<open>\<open>pattern.match(s)\<close> as a truth value: the pattern matches a prefix of \<open>s\<close>.\<close>

definition rx_match :: "rx \<Rightarrow> ustr \<Rightarrow> bool" where
  "rx_match r s \<longleftrightarrow> rx_run r s \<noteq> []"

text \<open>\<open>pattern.search(s)\<close>: \<open>group(0)\<close> of the leftmost match, if any.\<close>

fun rx_search :: "rx \<Rightarrow> ustr \<Rightarrow> ustr option" where
  "rx_search r [] = (case rx_run r [] of [] \<Rightarrow> None | rest # _ \<Rightarrow> Some [])"
| "rx_search r (c # cs) =
     (case rx_run r (c # cs) of
        [] \<Rightarrow> rx_search r cs
      | rest # _ \<Rightarrow> Some (take (Suc (length cs) - length rest) (c # cs)))"

text \<open>
  \<open>pattern.findall(s)\<close>: the successive non-overlapping matches, left to right, each scan
  resuming where the last match ended. Neither pattern of the module matches the empty
  string; a pattern that does moves on by one character here.
\<close>

function rx_findall :: "rx \<Rightarrow> ustr \<Rightarrow> ustr list" where
  "rx_findall r [] = []"
| "rx_findall r (c # cs) =
     (case rx_run r (c # cs) of
        [] \<Rightarrow> rx_findall r cs
      | rest # _ \<Rightarrow>
          take (Suc (length cs) - length rest) (c # cs)
            # (if length rest \<le> length cs then rx_findall r rest else rx_findall r cs))"
  by pat_completeness auto
termination
  by (relation "measure (\<lambda>(r, s). length s)") auto

definition is_alnum_ascii :: "cp \<Rightarrow> bool" where
  "is_alnum_ascii c \<longleftrightarrow> (97 \<le> c \<and> c \<le> 122) \<or> (65 \<le> c \<and> c \<le> 90) \<or> (48 \<le> c \<and> c \<le> 57)"

text \<open>\<open>EMAIL_RE = [a-zA-Z0-9_.+-]+@[a-zA-Z0-9-]+\.[a-zA-Z0-9-.]+\<close>\<close>

definition EMAIL_RE :: rx where
  "EMAIL_RE =
     Cat (Rep 1 None (\<lambda>c. is_alnum_ascii c \<or> c = 95 \<or> c = 46 \<or> c = 43 \<or> c = 45))
    (Cat (Cls (\<lambda>c. c = 64))
    (Cat (Rep 1 None (\<lambda>c. is_alnum_ascii c \<or> c = 45))
    (Cat (Cls (\<lambda>c. c = 46))
         (Rep 1 None (\<lambda>c. is_alnum_ascii c \<or> c = 45 \<or> c = 46)))))"

text \<open>
  \<open>PHONE_RE = (\+\d{1,3}[\s\-\.]*)?(?:\(?\d{2,4}\)?[\s\-\.]*)?\d[\d\s\-\.]{6,20}\d\<close>
\<close>

definition phone_sep :: "cp \<Rightarrow> bool" where
  "phone_sep c \<longleftrightarrow> is_space c \<or> c = 45 \<or> c = 46"

definition PHONE_RE :: rx where
  "PHONE_RE =
     Cat (Opt (Cat (Cls (\<lambda>c. c = 43)) (Cat (Rep 1 (Some 3) is_digit) (Rep 0 None phone_sep))))
    (Cat (Opt (Cat (Opt (Cls (\<lambda>c. c = 40)))
              (Cat (Rep 2 (Some 4) is_digit)
              (Cat (Opt (Cls (\<lambda>c. c = 41))) (Rep 0 None phone_sep)))))
    (Cat (Cls is_digit)
    (Cat (Rep 6 (Some 20) (\<lambda>c. is_digit c \<or> phone_sep c))
         (Cls is_digit))))"

section \<open>The text stream\<close>

text \<open>
  \<open>for s in soup.find_all(...): s.extract()\<close> takes every found node out of the tree it is
  in. What the soup holds afterwards is the tree without the subtrees of the found nodes.
  The Python changes the soup in place: the functions below that call \<open>_visible_texts\<close>
  return the soup they leave behind next to their result.
\<close>

fun remove_nodes :: "(node \<Rightarrow> bool) \<Rightarrow> node \<Rightarrow> node" where
  "remove_nodes p (Tag n a cs) = Tag n a (map (remove_nodes p) (filter (\<lambda>c. \<not> p c) cs))"
| "remove_nodes p (Text t) = Text t"
| "remove_nodes p (Comment t) = Comment t"

fun is_comment :: "node \<Rightarrow> bool" where
  "is_comment (Comment t) = True"
| "is_comment _ = False"

fun string_of :: "node \<Rightarrow> ustr option" where
  "string_of (Text t) = Some t"
| "string_of (Comment t) = Some t"
| "string_of (Tag n a cs) = None"

text \<open>
  One round of the loop over \<open>soup.find_all(text=True)\<close>: the fragment that a string node
  contributes, if any. A descendant always has a parent.
\<close>

definition visible_text :: "elem \<Rightarrow> (elem \<times> ustr) option" where
  "visible_text e =
     (case (fst e, string_of (snd e)) of
        (parent # anc, Some txt) \<Rightarrow>
          if has_name parent [str ''script'', str ''style'', str ''template''] then None
          else if txt = [] then None
          else if strip txt = [] then None
          else if is_hidden (anc, parent) then None
          else Some ((anc, parent), strip txt)
      | _ \<Rightarrow> None)"

definition strip_soup :: "node \<Rightarrow> node" where
  "strip_soup soup =
     remove_nodes is_comment
       (remove_nodes
          (\<lambda>c. has_name c [str ''script'', str ''style'', str ''noscript'', str ''iframe''])
          soup)"

definition visible_texts :: "node \<Rightarrow> (elem \<times> ustr) list \<times> node" where
  "visible_texts soup =
     (let soup' = strip_soup soup
      in (List.map_filter visible_text (descendants [] soup'), soup'))"

section \<open>Social links\<close>






section \<open>Emails\<close>

text \<open>The body of the loop over the anchors: the set of emails after one more anchor.\<close>

definition mailto_addr :: "ustr \<Rightarrow> ustr" where
  "mailto_addr href = strip (before_query (after_colon href))"

definition href_or_empty :: "elem \<Rightarrow> ustr" where
  "href_or_empty a = (case get_attr (snd a) (str ''href'') of Some h \<Rightarrow> h | None \<Rightarrow> [])"

definition mailto_step :: "elem \<Rightarrow> ustr set \<Rightarrow> ustr set" where
  "mailto_step a emails =
     (let href = href_or_empty a in
      if startswith (lower href) (str ''mailto:'') then
        (let addr = mailto_addr href in
         if rx_match EMAIL_RE addr then
           (if \<not> is_hidden a then insert addr emails else emails)
         else emails)
      else emails)"

definition text_email_step :: "elem \<times> ustr \<Rightarrow> ustr set \<Rightarrow> ustr set" where
  "text_email_step pt emails = fold insert (rx_findall EMAIL_RE (snd pt)) emails"

definition extract_emails :: "node \<Rightarrow> ustr list \<times> node" where
  "extract_emails soup =
     (let emails = fold mailto_step (find_all [str ''a''] soup) {};
          (texts, soup') = visible_texts soup;
          emails = fold text_email_step texts emails
      in (sorted_list_of_set emails, soup'))"

section \<open>Phones\<close>

text \<open>
  The \<open>phonenumbers\<close> library is not part of the repository. Its three functions are
  parameters; each of them may raise, which is the left injection. \<open>parse\<close> takes the
  region, \<open>None\<close> for a number that starts with a plus sign.
\<close>

datatype exn = Exn ustr

record 'n phonenumbers =
  parse :: "ustr \<Rightarrow> ustr option \<Rightarrow> exn + 'n"
  is_possible_number :: "'n \<Rightarrow> exn + bool"
  format_number_E164 :: "'n \<Rightarrow> exn + ustr"

text \<open>
  The body of the \<open>try\<close> in \<open>_normalize_phone\<close>: it raises (\<open>Inl\<close>), returns the E.164
  text (\<open>Inr (Some r)\<close>) or falls through (\<open>Inr None\<close>) when the number is not possible.
\<close>

definition try_E164 :: "'n phonenumbers \<Rightarrow> ustr \<Rightarrow> exn + ustr option" where
  "try_E164 P s =
     (case parse P s (if startswith s (str ''+'') then None else Some (str ''IN'')) of
        Inl e \<Rightarrow> Inl e
      | Inr parsed \<Rightarrow>
          (case is_possible_number P parsed of
             Inl e \<Rightarrow> Inl e
           | Inr possible \<Rightarrow>
               if possible then
                 (case format_number_E164 P parsed of Inl e \<Rightarrow> Inl e | Inr r \<Rightarrow> Inr (Some r))
               else Inr None))"

text \<open>
  \<open>_normalize_phone\<close>, with its own outcome as a sum: \<open>except Exception: pass\<close> takes
  every exception of the body to the fallback, as falling through does.
\<close>

definition normalize_phone :: "'n phonenumbers \<Rightarrow> ustr \<Rightarrow> exn + ustr" where
  "normalize_phone P num_str =
     (let s = strip num_str in
      case try_E164 P s of
        Inr (Some r) \<Rightarrow> Inr r
      | Inr None \<Rightarrow> Inr (digits_only s)
      | Inl e \<Rightarrow> Inr (digits_only s))"

record phone_candidate =
  original :: ustr
  normalized :: ustr

text \<open>
  The state of the two loops of \<open>extract_phones\<close> is the list \<open>phones\<close> and the set
  \<open>seen\<close>. A step that raises ends the run with the exception.
\<close>

type_synonym phone_state = "phone_candidate list \<times> ustr set"

fun run_steps :: "('a \<Rightarrow> 's \<Rightarrow> exn + 's) \<Rightarrow> 'a list \<Rightarrow> 's \<Rightarrow> exn + 's" where
  "run_steps f [] st = Inr st"
| "run_steps f (x # xs) st = (case f x st of Inl e \<Rightarrow> Inl e | Inr st' \<Rightarrow> run_steps f xs st')"

definition tel_num :: "ustr \<Rightarrow> ustr" where
  "tel_num href = before_query (after_colon href)"

definition tel_step :: "'n phonenumbers \<Rightarrow> elem \<Rightarrow> phone_state \<Rightarrow> exn + phone_state" where
  "tel_step P a st =
     (let href = href_or_empty a in
      if startswith (lower href) (str ''tel:'') then
        (let num = tel_num href in
         if is_hidden a then Inr st
         else
           (case normalize_phone P num of
              Inl e \<Rightarrow> Inl e
            | Inr nrm \<Rightarrow>
                if num \<notin> snd st
                then Inr (fst st @ [\<lparr>original = num, normalized = nrm\<rparr>], insert num (snd st))
                else Inr st))
      else Inr st)"

text \<open>
  The body of the inner loop over \<open>PHONE_RE.findall(txt)\<close>. It does not use the loop
  variable: every round searches the fragment again and gets its first match.
\<close>

definition phone_text_step ::
  "'n phonenumbers \<Rightarrow> elem \<times> ustr \<Rightarrow> ustr \<Rightarrow> phone_state \<Rightarrow> exn + phone_state" where
  "phone_text_step P pt m st =
     (case rx_search PHONE_RE (snd pt) of
        None \<Rightarrow> Inr st
      | Some g \<Rightarrow>
          (let num = strip g in
           if length (digits_only num) < 7 then Inr st
           else if num \<in> snd st then Inr st
           else if is_hidden (fst pt) then Inr st
           else
             (case normalize_phone P num of
                Inl e \<Rightarrow> Inl e
              | Inr nrm \<Rightarrow>
                  Inr (fst st @ [\<lparr>original = num, normalized = nrm\<rparr>], insert num (snd st)))))"

text \<open>
  One fragment: a round for every element of \<open>findall\<close> (for a pattern with one group
  \<open>findall\<close> returns the text of the group for every match; the rounds only count them).
\<close>

definition phone_fragment ::
  "'n phonenumbers \<Rightarrow> elem \<times> ustr \<Rightarrow> phone_state \<Rightarrow> exn + phone_state" where
  "phone_fragment P pt st = run_steps (phone_text_step P pt) (rx_findall PHONE_RE (snd pt)) st"

definition extract_phones :: "'n phonenumbers \<Rightarrow> node \<Rightarrow> exn + phone_candidate list \<times> node" where
  "extract_phones P soup =
     (case run_steps (tel_step P) (find_all [str ''a''] soup) ([], {}) of
        Inl e \<Rightarrow> Inl e
      | Inr st \<Rightarrow>
          (let (texts, soup') = visible_texts soup in
           case run_steps (phone_fragment P) texts st of
             Inl e \<Rightarrow> Inl e
           | Inr st' \<Rightarrow> Inr (fst st', soup')))"

text \<open>
  What both loops of \<open>extract_phones\<close> keep true of their state: \<open>seen\<close> holds the
  originals of the candidates, and every candidate carries the normalization of its
  original.
\<close>

definition phones_inv :: "'n phonenumbers \<Rightarrow> phone_state \<Rightarrow> bool" where
  "phones_inv P st \<longleftrightarrow>
     snd st = original ` set (fst st)
     \<and> (\<forall>p\<in>set (fst st). normalize_phone P (original p) = Inr (normalized p))"

section \<open>Name candidates\<close>

record name_candidate =
  name :: ustr
  confidence :: real
  reason :: ustr

definition add_candidate :: "ustr \<Rightarrow> real \<Rightarrow> ustr \<Rightarrow> name_candidate" where
  "add_candidate n c r = \<lparr>name = strip n, confidence = c, reason = r\<rparr>"

text \<open>
  \<open>soup.find('meta', attrs={'name': 'author'})\<close>: the first meta tag whose attribute
  \<open>name\<close> is \<open>author\<close>.
\<close>

definition find_meta_author :: "node \<Rightarrow> elem option" where
  "find_meta_author soup =
     List.find (\<lambda>e. get_attr (snd e) (str ''name'') = Some (str ''author''))
       (find_all [str ''meta''] soup)"

definition meta_candidates :: "node \<Rightarrow> name_candidate list" where
  "meta_candidates soup =
     (case find_meta_author soup of
        None \<Rightarrow> []
      | Some ma \<Rightarrow>
          (case get_attr (snd ma) (str ''content'') of
             None \<Rightarrow> []
           | Some content \<Rightarrow>
               if content = [] then []
               else [add_candidate content (9 / 10) (str ''meta[name=author]'')]))"

text \<open>
  \<open>tag.string\<close>: the only child when it is a string, the \<open>.string\<close> of the only child when
  it is a tag, \<open>None\<close> when the tag has no child or several.
\<close>

fun node_string :: "node \<Rightarrow> ustr option" where
  "node_string (Text t) = Some t"
| "node_string (Comment t) = Some t"
| "node_string (Tag n a cs) = (case cs of [c] \<Rightarrow> node_string c | _ \<Rightarrow> None)"

text \<open>The separators of the title: \<open>|\<close>, \<open>-\<close>, en-dash, em-dash.\<close>

definition is_title_sep :: "cp \<Rightarrow> bool" where
  "is_title_sep c \<longleftrightarrow> c = 124 \<or> c = 45 \<or> c = 8211 \<or> c = 8212"

text \<open>
  \<open>re.split(r"[|\-\<dots>]\s*", title)\<close>: the text is cut at every separator, and the white
  space after a separator goes with it.
\<close>

function re_split_title :: "ustr \<Rightarrow> ustr list" where
  "re_split_title s =
     (case dropWhile (\<lambda>c. \<not> is_title_sep c) s of
        [] \<Rightarrow> [s]
      | sep # after \<Rightarrow>
          takeWhile (\<lambda>c. \<not> is_title_sep c) s # re_split_title (dropWhile is_space after))"
  by pat_completeness auto
termination
proof (relation "measure length", goal_cases)
  case 1
  show ?case by simp
next
  case (2 s sep after)
  have "length (dropWhile is_space after) \<le> length after"
    by (rule length_dropWhile_le)
  moreover have "length (dropWhile (\<lambda>c. \<not> is_title_sep c) s) \<le> length s"
    by (rule length_dropWhile_le)
  ultimately show ?case using 2 by simp
qed

declare re_split_title.simps [simp del]

text \<open>
  \<open>soup.title\<close> is the first title tag of the document. The title text is its \<open>.string\<close>
  when that is a non-empty string.
\<close>

definition title_string :: "node \<Rightarrow> ustr option" where
  "title_string soup =
     (case find_all [str ''title''] soup of
        [] \<Rightarrow> None
      | t # _ \<Rightarrow>
          (case node_string (snd t) of
             None \<Rightarrow> None
           | Some s \<Rightarrow> if s = [] then None else Some s))"

definition title_candidates :: "node \<Rightarrow> name_candidate list" where
  "title_candidates soup =
     (case title_string soup of
        None \<Rightarrow> []
      | Some title \<Rightarrow>
          (case re_split_title title of
             [] \<Rightarrow> []
           | part # _ \<Rightarrow> [add_candidate part (1 / 2) (str ''title (first part)'')]))"

text \<open>
  Equality of BeautifulSoup nodes: tags by name, attribute dictionary and children in
  order, strings by their text (a comment equals a text with the same characters).
\<close>

definition attrs_eq :: "(ustr \<times> ustr) list \<Rightarrow> (ustr \<times> ustr) list \<Rightarrow> bool" where
  "attrs_eq a b \<longleftrightarrow> list_all (\<lambda>k. map_of a k = map_of b k) (map fst a @ map fst b)"

fun node_eq :: "node \<Rightarrow> node \<Rightarrow> bool" where
  "node_eq (Tag n a cs) (Tag n' a' cs') \<longleftrightarrow>
     n = n' \<and> attrs_eq a a' \<and> list_all2 node_eq cs cs'"
| "node_eq (Tag n a cs) _ \<longleftrightarrow> False"
| "node_eq _ (Tag n a cs) \<longleftrightarrow> False"
| "node_eq x y \<longleftrightarrow> string_of x = string_of y"

text \<open>
  \<open>el.get_text(separator=' ', strip=True)\<close>. BeautifulSoup gives a string the class of
  the nearest element around it that is a string container (\<open>rt\<close>, \<open>rp\<close>, \<open>style\<close>,
  \<open>script\<close>, \<open>template\<close>: ruby text, stylesheet, script, template string), and the
  plain class when there is none. \<open>get_text\<close> on an element collects, in document order,
  the strings below it of the class the element is interested in: its own container class
  when it is a container, the plain class otherwise. Each is stripped, the empty ones are
  dropped, the rest joined by one space. A comment has a class of its own and is never
  collected.
\<close>

fun join :: "ustr \<Rightarrow> ustr list \<Rightarrow> ustr" where
  "join sep [] = []"
| "join sep [x] = x"
| "join sep (x # y # ys) = x @ sep @ join sep (y # ys)"

definition string_containers :: "ustr list" where
  "string_containers = [str ''rt'', str ''rp'', str ''style'', str ''script'', str ''template'']"

definition string_class :: "node list \<Rightarrow> ustr option" where
  "string_class anc =
     (case List.find (\<lambda>x. has_name x string_containers) anc of
        None \<Rightarrow> None
      | Some x \<Rightarrow> tag_name x)"

definition interesting_class :: "node \<Rightarrow> ustr option" where
  "interesting_class el = (if has_name el string_containers then tag_name el else None)"

definition collected :: "node \<Rightarrow> elem \<Rightarrow> ustr option" where
  "collected el e =
     (case snd e of
        Text t \<Rightarrow> if string_class (fst e) = interesting_class el then Some t else None
      | _ \<Rightarrow> None)"

definition get_text :: "elem \<Rightarrow> ustr" where
  "get_text el =
     join (str '' '')
       (filter (\<lambda>t. t \<noteq> [])
          (map strip (List.map_filter (collected (snd el)) (descendants (fst el) (snd el)))))"

text \<open>The contact nodes: the parents of the \<open>mailto:\<close> and \<open>tel:\<close> anchors.\<close>

definition parent_of :: "elem \<Rightarrow> elem option" where
  "parent_of e = (case fst e of [] \<Rightarrow> None | p # anc \<Rightarrow> Some (anc, p))"

definition contact_nodes :: "node \<Rightarrow> elem list" where
  "contact_nodes soup =
     List.map_filter
       (\<lambda>a. if startswith (lower (href_or_empty a)) (str ''mailto:'')
               \<or> startswith (lower (href_or_empty a)) (str ''tel:'')
            then parent_of a else None)
       (find_all [str ''a''] soup)"

text \<open>
  \<open>cn == h.parent or cn in h.parents or h in cn.parents\<close>. The parent of \<open>h\<close> is the first
  of its parents.
\<close>

definition near_contact :: "elem \<Rightarrow> elem \<Rightarrow> bool" where
  "near_contact h cn \<longleftrightarrow>
     (case fst h of [] \<Rightarrow> False | p # _ \<Rightarrow> node_eq (snd cn) p)
     \<or> list_ex (node_eq (snd cn)) (fst h)
     \<or> list_ex (node_eq (snd h)) (fst cn)"

definition heading_candidate :: "elem list \<Rightarrow> ustr \<Rightarrow> elem \<Rightarrow> name_candidate list" where
  "heading_candidate cns tag h =
     (if is_hidden h then []
      else
        (let text = get_text h in
         if text = [] then []
         else
           (let base = (if tag = str ''h1'' then 7 / 10 else 6 / 10) in
            if list_ex (near_contact h) cns
            then [add_candidate text (min (95 / 100) (base + 25 / 100)) (tag @ str '' near contact'')]
            else [add_candidate text base tag])))"

definition heading_candidates :: "node \<Rightarrow> name_candidate list" where
  "heading_candidates soup =
     concat (map (\<lambda>tag. concat (map (heading_candidate (contact_nodes soup) tag) (find_all [tag] soup)))
       [str ''h1'', str ''h2'', str ''h3'', str ''h4''])"

text \<open>
  \<open>re.compile(k, re.I)\<close> searched in an attribute value: \<open>k\<close> occurs in it, letter case
  ignored. Under \<open>re.I\<close> a letter of the pattern also matches its capital and the code
  points that share its case folding (long s for \<open>s\<close>, Kelvin sign for \<open>k\<close>, dotted and
  dotless I for \<open>i\<close>).
\<close>

definition ci_eq :: "cp \<Rightarrow> cp \<Rightarrow> bool" where
  "ci_eq k c \<longleftrightarrow>
     c = k \<or> (65 \<le> c \<and> c \<le> 90 \<and> c + 32 = k) \<or> (k = 115 \<and> c = 383) \<or> (k = 107 \<and> c = 8490)
     \<or> (k = 105 \<and> (c = 304 \<or> c = 305))"

fun ci_prefix :: "ustr \<Rightarrow> ustr \<Rightarrow> bool" where
  "ci_prefix [] s = True"
| "ci_prefix (k # ks) [] = False"
| "ci_prefix (k # ks) (c # cs) = (ci_eq k c \<and> ci_prefix ks cs)"

fun ci_search :: "ustr \<Rightarrow> ustr \<Rightarrow> bool" where
  "ci_search k [] = ci_prefix k []"
| "ci_search k (c # cs) = (ci_prefix k (c # cs) \<or> ci_search k cs)"

definition find_all_attr :: "ustr \<Rightarrow> ustr \<Rightarrow> node \<Rightarrow> elem list" where
  "find_all_attr attr k soup =
     filter (\<lambda>e. case get_attr (snd e) attr of None \<Rightarrow> False | Some v \<Rightarrow> ci_search k v)
       (descendants [] soup)"

definition keyword_candidate :: "real \<Rightarrow> ustr \<Rightarrow> elem \<Rightarrow> name_candidate list" where
  "keyword_candidate c r el =
     (if is_hidden el then []
      else
        (let text = get_text el in
         if text \<noteq> [] \<and> length text < 60 then [add_candidate text c r] else []))"

definition keyword_candidates :: "node \<Rightarrow> name_candidate list" where
  "keyword_candidates soup =
     concat (map (\<lambda>k.
         concat (map (keyword_candidate (75 / 100) (str ''class contains '' @ k))
                   (find_all_attr (str ''class'') k soup))
         @ concat (map (keyword_candidate (8 / 10) (str ''id contains '' @ k))
                   (find_all_attr (str ''id'') k soup)))
       [str ''name'', str ''author'', str ''contact'', str ''founder'', str ''ceo'', str ''person''])"

text \<open>The raw candidates, in the order of the passes.\<close>

definition raw_candidates :: "node \<Rightarrow> name_candidate list" where
  "raw_candidates soup =
     meta_candidates soup @ title_candidates soup @ heading_candidates soup
     @ keyword_candidates soup"

text \<open>\<open>s.split()\<close>: the maximal runs without white space.\<close>

function split_ws :: "ustr \<Rightarrow> ustr list" where
  "split_ws s =
     (case dropWhile is_space s of
        [] \<Rightarrow> []
      | c # cs \<Rightarrow>
          takeWhile (\<lambda>x. \<not> is_space x) (c # cs)
            # split_ws (dropWhile (\<lambda>x. \<not> is_space x) cs))"
  by pat_completeness auto
termination
proof (relation "measure length", goal_cases)
  case 1
  show ?case by simp
next
  case (2 s c cs)
  have "length (dropWhile (\<lambda>x. \<not> is_space x) cs) \<le> length cs"
    by (rule length_dropWhile_le)
  moreover have "length (dropWhile is_space s) \<le> length s"
    by (rule length_dropWhile_le)
  ultimately show ?case using 2 by simp
qed

declare split_ws.simps [simp del]

definition normalize_name :: "ustr \<Rightarrow> ustr" where
  "normalize_name n = join (str '' '') (split_ws n)"

text \<open>"dedupe by normalized name", over the candidates sorted by falling confidence.\<close>

fun dedupe_names :: "ustr set \<Rightarrow> name_candidate list \<Rightarrow> name_candidate list \<Rightarrow> name_candidate list" where
  "dedupe_names seen out [] = out"
| "dedupe_names seen out (c # cs) =
     (let n = normalize_name (name c) in
      if n = [] \<or> n \<in> seen then dedupe_names seen out cs
      else dedupe_names (insert n seen) (out @ [c]) cs)"

text \<open>\<open>sorted\<close> is stable, as \<open>sort_key\<close> is.\<close>

definition rank_candidates :: "name_candidate list \<Rightarrow> name_candidate list" where
  "rank_candidates cands = dedupe_names {} [] (sort_key (\<lambda>x. - confidence x) cands)"

definition extract_name_candidates :: "node \<Rightarrow> name_candidate list" where
  "extract_name_candidates soup = rank_candidates (raw_candidates soup)"

section \<open>The crawl\<close>

record crawl_result =
  url :: ustr
  socials :: "ustr list"
  emails :: "ustr list"
  phones :: "phone_candidate list"
  name_candidates :: "name_candidate list"
  crawl_notes :: "ustr list"






section \<open>Stand-ins for the collaborators, sample documents\<close>


definition no_numbers :: "unit phonenumbers" where
  "no_numbers =
     \<lparr>parse = (\<lambda>s region. Inl (Exn (str ''NumberParseException''))),
      is_possible_number = (\<lambda>n. Inr False),
      format_number_E164 = (\<lambda>n. Inr [])\<rparr>"

definition plus_numbers :: "ustr phonenumbers" where
  "plus_numbers =
     \<lparr>parse = (\<lambda>s region.
         if region = None \<and> list_all is_digit (drop 1 s) then Inr (drop 1 s)
         else Inl (Exn (str ''NumberParseException''))),
      is_possible_number = (\<lambda>n. Inr (7 \<le> length n)),
      format_number_E164 = (\<lambda>n. Inr (str ''+'' @ n))\<rparr>"

text \<open>\<open><title>Jane Doe (en-dash) Portfolio | Site</title>\<close>\<close>

definition title_doc :: node where
  "title_doc =
     Tag (str ''[document]'') []
       [Tag (str ''html'') []
          [Tag (str ''head'') []
             [Tag (str ''title'') [] [Text (str ''Jane Doe '' @ [8211] @ str '' Portfolio | Site'')]],
           Tag (str ''body'') [] []]]"

text \<open>
  Two \<open>tel:\<close> anchors, the first without a number, and two paragraphs: one whose
  phone-like text has two digits, one with a ten-digit number.
\<close>

definition phone_doc :: node where
  "phone_doc =
     Tag (str ''[document]'') []
       [Tag (str ''a'') [(str ''href'', str ''tel:'')] [Text (str ''Call'')],
        Tag (str ''a'') [(str ''href'', str ''TEL:12?x=1'')] [],
        Tag (str ''p'') [] [Text (str ''1------2'')],
        Tag (str ''p'') [] [Text (str ''call 415-555-2671'')]]"

text \<open>\<open><a href="mailto:a@b.com">x</a><p>a@b.com c@d.org</p>\<close>, as the parser wraps it.\<close>

definition email_doc :: node where
  "email_doc =
     Tag (str ''[document]'') []
       [Tag (str ''html'') []
          [Tag (str ''body'') []
             [Tag (str ''a'') [(str ''href'', str ''mailto:a@b.com'')] [Text (str ''x'')],
              Tag (str ''p'') [] [Text (str ''a@b.com c@d.org'')]]]]"

text \<open>A \<open>mailto:\<close> anchor whose address goes on after the part the pattern matches.\<close>

definition mailto_doc :: node where
  "mailto_doc =
     Tag (str ''[document]'') []
       [Tag (str ''a'') [(str ''href'', str ''MailTo: a@b.com>junk ?subject=x'')] [Text (str ''write'')]]"


text \<open>\<open><meta name="author" content="Jane Doe">\<close> in the head, \<open><h1>Jane Doe</h1>\<close> in the body.\<close>

definition name_doc :: node where
  "name_doc =
     Tag (str ''[document]'') []
       [Tag (str ''html'') []
          [Tag (str ''head'') []
             [Tag (str ''meta'') [(str ''name'', str ''author''), (str ''content'', str ''Jane Doe'')] []],
           Tag (str ''body'') [] [Tag (str ''h1'') [] [Text (str ''Jane Doe'')]]]]"

text \<open>
  Raw candidates out of order: the same name from a heading (with two spaces), from the
  meta tag and from an id match, an empty name, and another name.
\<close>

definition name_list :: "name_candidate list" where
  "name_list =
     [\<lparr>name = str ''Jane  Doe'', confidence = 7 / 10, reason = str ''h1''\<rparr>,
      \<lparr>name = str ''Jane Doe'', confidence = 9 / 10, reason = str ''meta[name=author]''\<rparr>,
      \<lparr>name = [], confidence = 1 / 2, reason = str ''title (first part)''\<rparr>,
      \<lparr>name = str ''Jane Doe'', confidence = 9 / 10, reason = str ''id contains name''\<rparr>,
      \<lparr>name = str ''Acme'', confidence = 8 / 10, reason = str ''id contains contact''\<rparr>]"




text \<open>\<open><template id="name">Jane</template>\<close>\<close>

definition template_doc :: node where
  "template_doc =
     Tag (str ''[document]'') []
       [Tag (str ''template'') [(str ''id'', str ''name'')] [Text (str ''Jane'')]]"



section \<open>Properties\<close>

subsection \<open>Strings\<close>

lemma colon_in_lower: "58 \<in> set (lower s) \<Longrightarrow> 58 \<in> set s"
  by (auto simp: lower_def lower_cp_def split: if_splits)

lemma startswith_lower_colon:
  assumes "startswith (lower s) (p @ [58])"
  shows "58 \<in> set s"
proof -
  have "set (take (length (p @ [58])) (lower s)) \<subseteq> set (lower s)"
    by (rule set_take_subset)
  then have "58 \<in> set (lower s)"
    using assms unfolding startswith_def by auto
  then show ?thesis by (rule colon_in_lower)
qed

lemma space_not_digit: "is_space c \<Longrightarrow> \<not> is_digit c"
  unfolding is_space_def is_digit_def nd_runs_def
  by (elim disjE conjE; simp)

lemma digits_only_strip: "digits_only (strip s) = digits_only s"
proof -
  have a: "filter is_digit (dropWhile is_space xs) = filter is_digit xs" for xs
    by (induction xs) (auto simp: space_not_digit)
  show ?thesis
    unfolding digits_only_def strip_def
    by (simp add: a flip: rev_filter)
qed

subsection \<open>Evaluating the model on a document\<close>

text \<open>The definitions that the simplifier unfolds to run the model on a concrete input.\<close>

lemmas string_defs = lower_def lower_cp_def startswith_def strip_def remove_spaces_def
  after_colon_def before_query_def digits_only_def is_space_def is_digit_def
lemmas tree_defs = find_all_def has_name_def href_or_empty_def is_hidden_def attr_hidden_def
  style_none_def visible_texts_def strip_soup_def visible_text_def List.map_filter_def
lemmas rx_defs = rx_match_def EMAIL_RE_def PHONE_RE_def phone_sep_def is_alnum_ascii_def
lemmas phone_defs = extract_phones_def tel_step_def tel_num_def normalize_phone_def
  try_E164_def phone_fragment_def phone_text_step_def

lemmas name_defs = extract_name_candidates_def rank_candidates_def raw_candidates_def
  meta_candidates_def find_meta_author_def title_candidates_def title_string_def
  heading_candidates_def heading_candidate_def contact_nodes_def keyword_candidates_def
  keyword_candidate_def find_all_attr_def get_text_def collected_def string_class_def
  interesting_class_def string_containers_def add_candidate_def normalize_name_def
  parent_of_def near_contact_def

lemma split_ws_Nil: "split_ws [] = []"
  by (subst split_ws.simps) simp

lemma split_ws_space: "is_space c \<Longrightarrow> split_ws (c # cs) = split_ws cs"
  by (subst split_ws.simps, subst (2) split_ws.simps) simp

lemma split_ws_word:
  "\<not> is_space c \<Longrightarrow>
   split_ws (c # cs) = (c # takeWhile (\<lambda>x. \<not> is_space x) cs) # split_ws (dropWhile (\<lambda>x. \<not> is_space x) cs)"
  by (subst split_ws.simps) simp

lemmas split_ws_eval = split_ws_Nil split_ws_space split_ws_word

subsection \<open>Visibility\<close>

text \<open>
  C2. A node that is itself a template element, with nothing else hiding it, is not
  reported hidden: the self check repeats the attribute tests of the ancestor loop
  and leaves the template test out. Evaluated on \<open><template></template>\<close> at the top of
  a document and on \<open><template id="name">Jane</template>\<close>; on the latter
  \<open>extract_name_candidates\<close> then takes the template's text for a name.
\<close>

theorem is_hidden_template_self:
  "is_hidden ([Tag (str ''[document]'') [] [Tag (str ''template'') [] []]],
              Tag (str ''template'') [] []) = False
   \<and> find_all_attr (str ''id'') (str ''name'') template_doc
       = [([template_doc], Tag (str ''template'') [(str ''id'', str ''name'')] [Text (str ''Jane'')])]
   \<and> is_hidden ([template_doc], Tag (str ''template'') [(str ''id'', str ''name'')] [Text (str ''Jane'')])
       = False
   \<and> extract_name_candidates template_doc
       = [\<lparr>name = str ''Jane'', confidence = 8 / 10, reason = str ''id contains name''\<rparr>]"
proof -
  have 1: "is_hidden ([Tag (str ''[document]'') [] [Tag (str ''template'') [] []]],
              Tag (str ''template'') [] []) = False"
    by (simp add: tree_defs string_defs)
  have 2: "find_all_attr (str ''id'') (str ''name'') template_doc
       = [([template_doc], Tag (str ''template'') [(str ''id'', str ''name'')] [Text (str ''Jane'')])]"
    by (simp add: template_doc_def find_all_attr_def ci_eq_def)
  have 3: "is_hidden ([template_doc], Tag (str ''template'') [(str ''id'', str ''name'')] [Text (str ''Jane'')])
       = False"
    by (simp add: template_doc_def tree_defs string_defs)
  have 4: "extract_name_candidates template_doc
       = [\<lparr>name = str ''Jane'', confidence = 8 / 10, reason = str ''id contains name''\<rparr>]"
    by (simp add: template_doc_def name_defs tree_defs string_defs ci_eq_def split_ws_eval Let_def)
  show ?thesis
    using 1 2 3 4 by simp
qed

subsection \<open>The title pass\<close>

lemma hd_re_split_title: "hd (re_split_title s) = takeWhile (\<lambda>c. \<not> is_title_sep c) s"
  by (subst re_split_title.simps) (auto split: list.splits simp: takeWhile_eq_all_conv[THEN iffD2])

lemma re_split_title_nonempty: "re_split_title s \<noteq> []"
  by (subst re_split_title.simps) (auto split: list.splits)

text \<open>
  C3. When the document has a title text (the \<open>.string\<close> of its first title tag, not
  empty), the title pass emits exactly one candidate, with confidence 0.5 and the reason
  "title (first part)". Its name is the text before the first separator (\<open>|\<close>, \<open>-\<close>,
  en-dash, em-dash), or the whole text when there is none, with the white space around it
  stripped; the candidate is among the raw candidates of the extractor.
\<close>

theorem title_first_part:
  assumes "title_string soup = Some title"
  shows "title_candidates soup =
           [\<lparr>name = strip (takeWhile (\<lambda>c. \<not> is_title_sep c) title), confidence = 1 / 2,
             reason = str ''title (first part)''\<rparr>]
         \<and> set (title_candidates soup) \<subseteq> set (raw_candidates soup)"
proof -
  obtain part rest where p: "re_split_title title = part # rest"
    using re_split_title_nonempty [of title] by (cases "re_split_title title") auto
  have "part = takeWhile (\<lambda>c. \<not> is_title_sep c) title"
    using hd_re_split_title [of title] p by simp
  then show ?thesis
    using assms p by (simp add: title_candidates_def add_candidate_def raw_candidates_def)
qed

theorem title_first_part_witness:
  "title_string title_doc = Some (str ''Jane Doe '' @ [8211] @ str '' Portfolio | Site'')
   \<and> title_candidates title_doc =
       [\<lparr>name = str ''Jane Doe'', confidence = 1 / 2, reason = str ''title (first part)''\<rparr>]"
proof -
  have t: "title_string title_doc = Some (str ''Jane Doe '' @ [8211] @ str '' Portfolio | Site'')"
    by (simp add: title_string_def title_doc_def find_all_def has_name_def)
  have s: "strip (takeWhile (\<lambda>c. \<not> is_title_sep c) (str ''Jane Doe '' @ [8211] @ str '' Portfolio | Site''))
           = str ''Jane Doe''"
    by (simp add: strip_def is_title_sep_def is_space_def)
  show ?thesis
    using title_first_part [OF t] t s by simp
qed

subsection \<open>The phone normalizer\<close>

text \<open>
  C8. \<open>_normalize_phone\<close> returns on every input, whatever the phone library does: the
  E.164 text when the library parses the stripped input (without a region when it starts
  with a plus sign, with the region IN otherwise), finds the number possible and formats
  it; the digits of the input when the parse raises, when the number is not possible, and
  when any other call of the library raises.
\<close>

theorem normalize_phone_falls_back:
  "normalize_phone P x =
     Inr (case parse P (strip x) (if startswith (strip x) (str ''+'') then None else Some (str ''IN'')) of
            Inl e \<Rightarrow> digits_only x
          | Inr parsed \<Rightarrow>
              (case is_possible_number P parsed of
                 Inl e \<Rightarrow> digits_only x
               | Inr possible \<Rightarrow>
                   if possible then
                     (case format_number_E164 P parsed of Inl e \<Rightarrow> digits_only x | Inr r \<Rightarrow> r)
                   else digits_only x))"
  by (simp add: normalize_phone_def try_E164_def digits_only_strip Let_def split: sum.splits)

theorem normalize_phone_falls_back_witness:
  "normalize_phone plus_numbers (str '' +14155552671 '') = Inr (str ''+14155552671'')
   \<and> normalize_phone plus_numbers (str ''+1 415'') = Inr (str ''1415'')
   \<and> normalize_phone plus_numbers (str ''+1415'') = Inr (str ''1415'')
   \<and> normalize_phone no_numbers (str ''040-555 26'') = Inr (str ''04055526'')"
  using normalize_phone_falls_back [of plus_numbers "str '' +14155552671 ''"]
    normalize_phone_falls_back [of plus_numbers "str ''+1 415''"]
    normalize_phone_falls_back [of plus_numbers "str ''+1415''"]
    normalize_phone_falls_back [of no_numbers "str ''040-555 26''"]
  by (simp add: plus_numbers_def no_numbers_def strip_def startswith_def is_space_def is_digit_def digits_only_def)

subsection \<open>Social links\<close>







subsection \<open>Emails\<close>

lemma fold_mailto_step:
  "fold mailto_step as E =
     E \<union> (\<lambda>a. mailto_addr (href_or_empty a)) `
           {a \<in> set as. startswith (lower (href_or_empty a)) (str ''mailto:'')
                        \<and> rx_match EMAIL_RE (mailto_addr (href_or_empty a)) \<and> \<not> is_hidden a}"
  by (induction as arbitrary: E) (auto simp: mailto_step_def Let_def)

lemma fold_text_email_step:
  "fold text_email_step texts E = E \<union> (\<Union>pt\<in>set texts. set (rx_findall EMAIL_RE (snd pt)))"
proof (induction texts arbitrary: E)
  case Nil
  then show ?case by simp
next
  case (Cons t ts)
  have "fold insert xs A = A \<union> set xs" for xs :: "ustr list" and A
    by (induction xs arbitrary: A) auto
  then show ?case
    using Cons by (auto simp: text_email_step_def)
qed

lemma extract_emails_set:
  "set (fst (extract_emails soup)) =
     (\<lambda>a. mailto_addr (href_or_empty a)) `
        {a \<in> set (find_all [str ''a''] soup).
           startswith (lower (href_or_empty a)) (str ''mailto:'')
           \<and> rx_match EMAIL_RE (mailto_addr (href_or_empty a)) \<and> \<not> is_hidden a}
     \<union> (\<Union>pt\<in>set (fst (visible_texts soup)). set (rx_findall EMAIL_RE (snd pt)))"
  by (simp add: extract_emails_def Let_def split_beta fold_mailto_step fold_text_email_step)

lemma extract_emails_sorted: "sorted (fst (extract_emails soup)) \<and> distinct (fst (extract_emails soup))"
  by (simp add: extract_emails_def Let_def split_beta)

text \<open>
  C6. The emails returned are the addresses of the \<open>mailto:\<close> anchors that are not
  hidden and whose address the email pattern matches at its start, together with every
  match of the pattern in a visible text fragment. The list is sorted (lists of code
  points compare lexicographically) and has no duplicates. For the document
  \<open><a href="mailto:a@b.com">x</a><p>a@b.com c@d.org</p>\<close> it is \<open>a@b.com\<close>, \<open>c@d.org\<close>.
\<close>

theorem extract_emails_sorted_union:
  "set (fst (extract_emails soup)) =
     (\<lambda>a. mailto_addr (href_or_empty a)) `
        {a \<in> set (find_all [str ''a''] soup).
           startswith (lower (href_or_empty a)) (str ''mailto:'')
           \<and> rx_match EMAIL_RE (mailto_addr (href_or_empty a)) \<and> \<not> is_hidden a}
     \<union> (\<Union>pt\<in>set (fst (visible_texts soup)). set (rx_findall EMAIL_RE (snd pt)))
   \<and> sorted (fst (extract_emails soup)) \<and> distinct (fst (extract_emails soup))
   \<and> fst (extract_emails email_doc) = [str ''a@b.com'', str ''c@d.org'']"
proof -
  have fin: "finite (fold text_email_step ts (fold mailto_step as {}))" for ts as
    by (simp add: fold_mailto_step fold_text_email_step)
  have "fold text_email_step (fst (visible_texts email_doc))
          (fold mailto_step (find_all [str ''a''] email_doc) {}) = {str ''a@b.com'', str ''c@d.org''}"
    by (simp add: email_doc_def mailto_step_def mailto_addr_def text_email_step_def
        string_defs tree_defs rx_defs Let_def insert_commute)
  then have "fst (extract_emails email_doc) = sorted_list_of_set {str ''a@b.com'', str ''c@d.org''}"
    by (simp add: extract_emails_def Let_def split_beta)
  also have "\<dots> = sorted_list_of_set (set [str ''a@b.com'', str ''c@d.org''])"
    by simp
  also have "\<dots> = [str ''a@b.com'', str ''c@d.org'']"
    unfolding sorted_list_of_set_sort_remdups by simp
  finally show ?thesis
    using extract_emails_set [of soup] extract_emails_sorted [of soup] by simp
qed

text \<open>
  C10. For a \<open>mailto:\<close> anchor that is not hidden, when the email pattern matches at
  the start of the address (the text after the colon, up to the first question mark,
  stripped), the emails hold the whole address, not the part that the pattern matched.
  In the sample the pattern matches \<open>a@b.com\<close> and the email reported is \<open>a@b.com>junk\<close>.
\<close>

theorem mailto_whole_address:
  assumes "a \<in> set (find_all [str ''a''] soup)"
    and "startswith (lower (href_or_empty a)) (str ''mailto:'')"
    and "\<not> is_hidden a"
    and "rx_match EMAIL_RE (mailto_addr (href_or_empty a))"
  shows "mailto_addr (href_or_empty a) \<in> set (fst (extract_emails soup))"
  using assms unfolding extract_emails_set by blast

theorem mailto_whole_address_witness:
  "hd (find_all [str ''a''] mailto_doc) \<in> set (find_all [str ''a''] mailto_doc)
   \<and> startswith (lower (href_or_empty (hd (find_all [str ''a''] mailto_doc)))) (str ''mailto:'')
   \<and> \<not> is_hidden (hd (find_all [str ''a''] mailto_doc))
   \<and> mailto_addr (href_or_empty (hd (find_all [str ''a''] mailto_doc))) = str ''a@b.com>junk''
   \<and> rx_match EMAIL_RE (str ''a@b.com>junk'')
   \<and> rx_search EMAIL_RE (str ''a@b.com>junk'') = Some (str ''a@b.com'')
   \<and> str ''a@b.com>junk'' \<in> set (fst (extract_emails mailto_doc))"
proof -
  let ?a = "hd (find_all [str ''a''] mailto_doc)"
  have h1: "?a \<in> set (find_all [str ''a''] mailto_doc)"
    by (simp add: mailto_doc_def tree_defs)
  have h2: "startswith (lower (href_or_empty ?a)) (str ''mailto:'')"
    by (simp add: mailto_doc_def tree_defs string_defs)
  have h3: "\<not> is_hidden ?a"
    by (simp add: mailto_doc_def tree_defs string_defs)
  have n: "mailto_addr (href_or_empty ?a) = str ''a@b.com>junk''"
    by (simp add: mailto_doc_def tree_defs string_defs mailto_addr_def)
  have m: "rx_match EMAIL_RE (str ''a@b.com>junk'')"
    by (simp add: rx_defs)
  have s: "rx_search EMAIL_RE (str ''a@b.com>junk'') = Some (str ''a@b.com'')"
    by (simp add: rx_defs)
  have h4: "rx_match EMAIL_RE (mailto_addr (href_or_empty ?a))"
    using m n by simp
  show ?thesis
    using mailto_whole_address [OF h1 h2 h3 h4] h1 h2 h3 n m s by simp
qed

subsection \<open>Phones\<close>

lemma run_steps_rule:
  assumes "I st"
    and "\<And>x s. x \<in> set xs \<Longrightarrow> I s \<Longrightarrow> \<exists>s'. f x s = Inr s' \<and> I s' \<and> R s s'"
    and "\<And>s. R s s"
    and "\<And>a b c. R a b \<Longrightarrow> R b c \<Longrightarrow> R a c"
  shows "\<exists>s'. run_steps f xs st = Inr s' \<and> I s' \<and> R st s'"
  using assms(1,2)
proof (induction xs arbitrary: st)
  case Nil
  then show ?case using assms(3) by simp
next
  case (Cons x xs)
  from Cons.prems obtain s1 where s1: "f x st = Inr s1" "I s1" "R st s1"
    by (meson list.set_intros(1))
  have "\<exists>s'. run_steps f xs s1 = Inr s' \<and> I s' \<and> R s1 s'"
    by (rule Cons.IH [OF s1(2)]) (use Cons.prems(2) in auto)
  then show ?case
    using s1 assms(4) by auto
qed

lemma normalize_phone_returns: "\<exists>r. normalize_phone P x = Inr r"
  by (simp add: normalize_phone_def Let_def split: sum.splits option.splits)

lemma tel_step_grows:
  assumes "phones_inv P st"
  shows "\<exists>st'. tel_step P a st = Inr st'
           \<and> (phones_inv P st')
           \<and> set (fst st) \<subseteq> set (fst st')
           \<and> (startswith (lower (href_or_empty a)) (str ''tel:'') \<and> \<not> is_hidden a
                \<longrightarrow> tel_num (href_or_empty a) \<in> snd st')"
proof -
  obtain r where r: "normalize_phone P (tel_num (href_or_empty a)) = Inr r"
    using normalize_phone_returns by blast
  show ?thesis
    using assms r by (cases st) (auto simp: tel_step_def Let_def phones_inv_def)
qed

lemma phone_text_step_grows:
  assumes "phones_inv P st"
  shows "\<exists>st'. phone_text_step P pt m st = Inr st'
           \<and> (phones_inv P st')
           \<and> (set (fst st) \<subseteq> set (fst st')
              \<and> set (fst st') \<subseteq> set (fst st) \<union> {p. 7 \<le> length (digits_only (original p))})"
proof (cases "rx_search PHONE_RE (snd pt)")
  case None
  then show ?thesis using assms by (cases st) (simp add: phone_text_step_def phones_inv_def)
next
  case (Some g)
  obtain r where r: "normalize_phone P (strip g) = Inr r"
    using normalize_phone_returns by blast
  show ?thesis
    using assms r Some by (cases st) (auto simp: phone_text_step_def Let_def phones_inv_def)
qed

lemma phone_fragment_grows:
  assumes "phones_inv P st"
  shows "\<exists>st'. phone_fragment P pt st = Inr st'
           \<and> (phones_inv P st')
           \<and> (set (fst st) \<subseteq> set (fst st')
              \<and> set (fst st') \<subseteq> set (fst st) \<union> {p. 7 \<le> length (digits_only (original p))})"
  unfolding phone_fragment_def
  by (rule run_steps_rule [where I = "phones_inv P" and R = "\<lambda>s s'. set (fst s) \<subseteq> set (fst s')
              \<and> set (fst s') \<subseteq> set (fst s) \<union> {p. 7 \<le> length (digits_only (original p))}", OF assms])
     (use phone_text_step_grows in blast, auto)

lemma text_pass_grows:
  assumes "phones_inv P st"
  shows "\<exists>st'. run_steps (phone_fragment P) texts st = Inr st'
           \<and> (phones_inv P st')
           \<and> (set (fst st) \<subseteq> set (fst st')
              \<and> set (fst st') \<subseteq> set (fst st) \<union> {p. 7 \<le> length (digits_only (original p))})"
  by (rule run_steps_rule [where I = "phones_inv P" and R = "\<lambda>s s'. set (fst s) \<subseteq> set (fst s')
              \<and> set (fst s') \<subseteq> set (fst s) \<union> {p. 7 \<le> length (digits_only (original p))}", OF assms])
     (use phone_fragment_grows in blast, auto)

lemma tel_pass_grows:
  assumes "phones_inv P st"
  shows "\<exists>st'. run_steps (tel_step P) as st = Inr st'
           \<and> (phones_inv P st')
           \<and> set (fst st) \<subseteq> set (fst st')"
  by (rule run_steps_rule [where I = "phones_inv P" and R = "\<lambda>s s'. set (fst s) \<subseteq> set (fst s')", OF assms])
     (use tel_step_grows in blast, auto)

lemma tel_pass_reports:
  assumes "phones_inv P st"
    and "a \<in> set as"
    and "startswith (lower (href_or_empty a)) (str ''tel:'')" and "\<not> is_hidden a"
  shows "\<exists>st'. run_steps (tel_step P) as st = Inr st'
           \<and> (phones_inv P st')
           \<and> tel_num (href_or_empty a) \<in> snd st'"
  using assms(1,2)
proof (induction as arbitrary: st)
  case Nil
  then show ?case by simp
next
  case (Cons x xs)
  obtain s1 where s1: "tel_step P x st = Inr s1"
      "phones_inv P s1"
      "startswith (lower (href_or_empty x)) (str ''tel:'') \<and> \<not> is_hidden x
                \<longrightarrow> tel_num (href_or_empty x) \<in> snd s1"
    using tel_step_grows [of P st x] Cons.prems(1) by blast
  show ?case
  proof (cases "a = x")
    case True
    obtain s2 where s2: "run_steps (tel_step P) xs s1 = Inr s2"
        "phones_inv P s2"
        "set (fst s1) \<subseteq> set (fst s2)"
      using tel_pass_grows [OF s1(2), of xs] by blast
    have "tel_num (href_or_empty a) \<in> snd s2"
      using s1(2,3) s2(2,3) True assms(3,4) by (auto simp: phones_inv_def)
    then show ?thesis using s1(1) s2 by simp
  next
    case False
    then have "a \<in> set xs" using Cons.prems(2) by simp
    from Cons.IH [OF s1(2) this] show ?thesis using s1(1) by simp
  qed
qed

lemma phone_doc_run:
  "extract_phones no_numbers phone_doc =
     Inr ([\<lparr>original = [], normalized = []\<rparr>,
           \<lparr>original = str ''12'', normalized = str ''12''\<rparr>,
           \<lparr>original = str ''415-555-2671'', normalized = str ''4155552671''\<rparr>], phone_doc)"
  by (simp add: phone_doc_def no_numbers_def phone_defs string_defs tree_defs rx_defs Let_def)

lemma phone_doc_tel_pass:
  "run_steps (tel_step no_numbers) (find_all [str ''a''] phone_doc) ([], {}) =
     Inr ([\<lparr>original = [], normalized = []\<rparr>, \<lparr>original = str ''12'', normalized = str ''12''\<rparr>],
          {str ''12'', []})"
  by (simp add: phone_doc_def no_numbers_def phone_defs string_defs tree_defs Let_def)

text \<open>
  C9. Every anchor that is not hidden and whose lowered \<open>href\<close> starts with \<open>tel:\<close>
  has an entry in the phones: its original is the text after the colon up to the first
  question mark, whatever the number of its digits, and its normalized form is what
  \<open>_normalize_phone\<close> returns for it. In the sample the first anchor is \<open>tel:\<close> alone:
  the entry has an empty original and an empty normalized form.
\<close>

theorem tel_anchor_reported:
  assumes "a \<in> set (find_all [str ''a''] soup)"
    and "startswith (lower (href_or_empty a)) (str ''tel:'')"
    and "\<not> is_hidden a"
  shows "\<exists>phs soup' nrm.
           extract_phones P soup = Inr (phs, soup')
           \<and> normalize_phone P (tel_num (href_or_empty a)) = Inr nrm
           \<and> \<lparr>original = tel_num (href_or_empty a), normalized = nrm\<rparr> \<in> set phs"
proof -
  let ?num = "tel_num (href_or_empty a)"
  have i0: "phones_inv P ([], {})"
    by (simp add: phones_inv_def)
  obtain s1 where s1: "run_steps (tel_step P) (find_all [str ''a''] soup) ([], {}) = Inr s1"
      "phones_inv P s1"
      "?num \<in> snd s1"
    using tel_pass_reports [OF i0 assms] by blast
  obtain s2 where s2: "run_steps (phone_fragment P) (fst (visible_texts soup)) s1 = Inr s2"
      "set (fst s1) \<subseteq> set (fst s2)"
    using text_pass_grows [OF s1(2), of "fst (visible_texts soup)"] by blast
  obtain p where p: "p \<in> set (fst s1)" "original p = ?num"
    using s1(2,3) by (auto simp: phones_inv_def)
  then have n: "normalize_phone P ?num = Inr (normalized p)"
    using s1(2) by (auto simp: phones_inv_def)
  have "p = \<lparr>original = ?num, normalized = normalized p\<rparr>"
    using p(2) by simp
  then have "\<lparr>original = ?num, normalized = normalized p\<rparr> \<in> set (fst s2)"
    using p(1) s2(2) by auto
  moreover have "extract_phones P soup = Inr (fst s2, snd (visible_texts soup))"
    using s1(1) s2(1) by (simp add: extract_phones_def split_beta)
  ultimately show ?thesis using n by blast
qed

theorem tel_anchor_reported_witness:
  "hd (find_all [str ''a''] phone_doc) \<in> set (find_all [str ''a''] phone_doc)
   \<and> startswith (lower (href_or_empty (hd (find_all [str ''a''] phone_doc)))) (str ''tel:'')
   \<and> \<not> is_hidden (hd (find_all [str ''a''] phone_doc))
   \<and> tel_num (href_or_empty (hd (find_all [str ''a''] phone_doc))) = []
   \<and> digits_only [] = []
   \<and> (\<exists>phs soup' nrm.
         extract_phones no_numbers phone_doc = Inr (phs, soup')
         \<and> normalize_phone no_numbers [] = Inr nrm
         \<and> \<lparr>original = [], normalized = nrm\<rparr> \<in> set phs)
   \<and> extract_phones no_numbers phone_doc =
       Inr ([\<lparr>original = [], normalized = []\<rparr>,
             \<lparr>original = str ''12'', normalized = str ''12''\<rparr>,
             \<lparr>original = str ''415-555-2671'', normalized = str ''4155552671''\<rparr>], phone_doc)"
proof -
  let ?a = "hd (find_all [str ''a''] phone_doc)"
  have h1: "?a \<in> set (find_all [str ''a''] phone_doc)"
    by (simp add: phone_doc_def tree_defs)
  have h2: "startswith (lower (href_or_empty ?a)) (str ''tel:'')"
    by (simp add: phone_doc_def tree_defs string_defs)
  have h3: "\<not> is_hidden ?a"
    by (simp add: phone_doc_def tree_defs string_defs)
  have n: "tel_num (href_or_empty ?a) = []"
    by (simp add: phone_doc_def tree_defs string_defs tel_num_def)
  show ?thesis
    using tel_anchor_reported [OF h1 h2 h3, of no_numbers] h1 h2 h3 n phone_doc_run
    by (simp add: digits_only_def)
qed

text \<open>
  C7. When the phone pattern's match in a fragment has fewer than seven digits, the
  fragment leaves the phones and the seen set as they were. Every candidate that
  \<open>extract_phones\<close> returns was already there after the pass over the \<open>tel:\<close> anchors,
  or its original has at least seven digits.
\<close>

theorem text_phone_seven_digits:
  "(\<forall>g. rx_search PHONE_RE txt = Some g \<longrightarrow> length (digits_only g) < 7
        \<longrightarrow> phone_fragment P (parent, txt) st = Inr st)
   \<and> (\<forall>tel phs soup' p.
         run_steps (tel_step P) (find_all [str ''a''] soup) ([], {}) = Inr tel
         \<longrightarrow> extract_phones P soup = Inr (phs, soup') \<longrightarrow> p \<in> set phs
         \<longrightarrow> p \<in> set (fst tel) \<or> 7 \<le> length (digits_only (original p)))"
proof (intro conjI allI impI)
  fix g
  assume g: "rx_search PHONE_RE txt = Some g" "length (digits_only g) < 7"
  have step: "phone_text_step P (parent, txt) m s = Inr s" for m s
    using g by (simp add: phone_text_step_def digits_only_strip)
  have "run_steps (phone_text_step P (parent, txt)) ms st = Inr st" for ms
    by (induction ms) (simp_all add: step)
  then show "phone_fragment P (parent, txt) st = Inr st"
    by (simp add: phone_fragment_def)
next
  fix tel phs soup' p
  assume tel: "run_steps (tel_step P) (find_all [str ''a''] soup) ([], {}) = Inr tel"
    and ex: "extract_phones P soup = Inr (phs, soup')" and p: "p \<in> set phs"
  have i0: "phones_inv P ([], {})"
    by (simp add: phones_inv_def)
  have i1: "phones_inv P tel"
    using tel_pass_grows [OF i0, of "find_all [str ''a''] soup"] tel by auto
  obtain s2 where s2: "run_steps (phone_fragment P) (fst (visible_texts soup)) tel = Inr s2"
      "set (fst s2) \<subseteq> set (fst tel) \<union> {p. 7 \<le> length (digits_only (original p))}"
    using text_pass_grows [OF i1, of "fst (visible_texts soup)"] by blast
  have "phs = fst s2"
    using tel s2(1) ex by (simp add: extract_phones_def split_beta)
  then show "p \<in> set (fst tel) \<or> 7 \<le> length (digits_only (original p))"
    using s2(2) p by auto
qed

theorem text_phone_seven_digits_witness:
  "rx_search PHONE_RE (str ''1------2'') = Some (str ''1------2'')
   \<and> length (digits_only (str ''1------2'')) = 2
   \<and> phone_fragment no_numbers (([], phone_doc), str ''1------2'') ([], {}) = Inr ([], {})
   \<and> run_steps (tel_step no_numbers) (find_all [str ''a''] phone_doc) ([], {}) =
       Inr ([\<lparr>original = [], normalized = []\<rparr>, \<lparr>original = str ''12'', normalized = str ''12''\<rparr>],
            {str ''12'', []})
   \<and> extract_phones no_numbers phone_doc =
       Inr ([\<lparr>original = [], normalized = []\<rparr>,
             \<lparr>original = str ''12'', normalized = str ''12''\<rparr>,
             \<lparr>original = str ''415-555-2671'', normalized = str ''4155552671''\<rparr>], phone_doc)
   \<and> length (digits_only (str ''415-555-2671'')) = 10"
proof -
  have s: "rx_search PHONE_RE (str ''1------2'') = Some (str ''1------2'')"
    by (simp add: rx_defs string_defs)
  have d: "length (digits_only (str ''1------2'')) = 2"
    by (simp add: string_defs)
  have d7: "length (digits_only (str ''1------2'')) < 7"
    using d by simp
  have f: "phone_fragment no_numbers (([], phone_doc), str ''1------2'') ([], {}) = Inr ([], {})"
    using text_phone_seven_digits [of "str ''1------2''" no_numbers "([], phone_doc)" "([], {})" phone_doc]
      s d7 by blast
  have "length (digits_only (str ''415-555-2671'')) = 10"
    by (simp add: string_defs)
  then show ?thesis
    using s d f phone_doc_tel_pass phone_doc_run by simp
qed

subsection \<open>Ranking the name candidates\<close>

lemma dedupe_names_acc: "dedupe_names seen out cs = out @ dedupe_names seen [] cs"
proof (induction cs arbitrary: seen out)
  case Nil
  then show ?case by simp
next
  case (Cons c cs)
  show ?case
    using Cons [of seen out] Cons [of "insert (normalize_name (name c)) seen" "out @ [c]"]
      Cons [of "insert (normalize_name (name c)) seen" "[c]"]
    by (simp add: Let_def)
qed

lemma dedupe_names_Cons:
  "dedupe_names seen [] (c # cs) =
     (if normalize_name (name c) = [] \<or> normalize_name (name c) \<in> seen
      then dedupe_names seen [] cs
      else c # dedupe_names (insert (normalize_name (name c)) seen) [] cs)"
  using dedupe_names_acc [of "insert (normalize_name (name c)) seen" "[c]" cs]
  by (simp add: Let_def)

lemma dedupe_names_subset: "set (dedupe_names seen [] cs) \<subseteq> set cs"
  by (induction cs arbitrary: seen) (auto simp: dedupe_names_Cons simp del: dedupe_names.simps(2))

lemma dedupe_names_image:
  "(\<lambda>c. normalize_name (name c)) ` set (dedupe_names seen [] cs)
     = (\<lambda>c. normalize_name (name c)) ` set cs - seen - {[]}"
  by (induction cs arbitrary: seen) (auto simp: dedupe_names_Cons simp del: dedupe_names.simps(2))

lemma dedupe_names_distinct:
  "distinct (map (\<lambda>c. normalize_name (name c)) (dedupe_names seen [] cs))"
proof (induction cs arbitrary: seen)
  case Nil
  then show ?case by simp
next
  case (Cons c cs)
  have "normalize_name (name c) \<notin> (\<lambda>c. normalize_name (name c)) `
          set (dedupe_names (insert (normalize_name (name c)) seen) [] cs)"
    unfolding dedupe_names_image by simp
  then show ?case
    using Cons by (simp add: dedupe_names_Cons del: dedupe_names.simps(2))
qed

lemma dedupe_names_sorted:
  "sorted (map f cs) \<Longrightarrow> sorted (map f (dedupe_names seen [] cs))"
proof (induction cs arbitrary: seen)
  case Nil
  then show ?case by simp
next
  case (Cons c cs)
  have "\<forall>x\<in>set (dedupe_names (insert (normalize_name (name c)) seen) [] cs). f c \<le> f x"
    using Cons.prems dedupe_names_subset by fastforce
  then show ?case
    using Cons by (simp add: dedupe_names_Cons del: dedupe_names.simps(2))
qed

lemma dedupe_names_first:
  "c \<in> set (dedupe_names seen [] cs)
   \<Longrightarrow> List.find (\<lambda>d. normalize_name (name d) = normalize_name (name c)) cs = Some c"
proof (induction cs arbitrary: seen)
  case Nil
  then show ?case by simp
next
  case (Cons h cs)
  let ?nn = "\<lambda>c. normalize_name (name c)"
  show ?case
  proof (cases "?nn h = [] \<or> ?nn h \<in> seen")
    case True
    then have c: "c \<in> set (dedupe_names seen [] cs)"
      using Cons.prems by (simp add: dedupe_names_Cons del: dedupe_names.simps(2))
    then have "?nn c \<in> ?nn ` set cs - seen - {[]}"
      using dedupe_names_image [of seen cs] by blast
    then have "?nn h \<noteq> ?nn c" using True by auto
    then show ?thesis using Cons.IH [OF c] by simp
  next
    case False
    then have "c = h \<or> c \<in> set (dedupe_names (insert (?nn h) seen) [] cs)"
      using Cons.prems by (simp add: dedupe_names_Cons del: dedupe_names.simps(2))
    then show ?thesis
    proof
      assume "c = h"
      then show ?thesis by simp
    next
      assume c: "c \<in> set (dedupe_names (insert (?nn h) seen) [] cs)"
      then have "?nn c \<in> ?nn ` set cs - insert (?nn h) seen - {[]}"
        using dedupe_names_image [of "insert (?nn h) seen" cs] by blast
      then have "?nn h \<noteq> ?nn c" by auto
      then show ?thesis using Cons.IH [OF c] by simp
    qed
  qed
qed

lemma find_sorted_least:
  "List.find P xs = Some c \<Longrightarrow> sorted (map f xs) \<Longrightarrow> d \<in> set xs \<Longrightarrow> P d \<Longrightarrow> f c \<le> f d"
  by (induction xs) (auto split: if_splits)

lemma find_filter: "List.find P (filter Q xs) = List.find (\<lambda>x. Q x \<and> P x) xs"
  by (induction xs) auto

lemma find_conj: "List.find P xs = Some c \<Longrightarrow> Q c \<Longrightarrow> List.find (\<lambda>x. Q x \<and> P x) xs = Some c"
  by (induction xs) (auto split: if_splits)

text \<open>
  C5. Whatever the raw candidates are, the ranked list is in order of falling confidence;
  no two of its entries have the same white-space-collapsed name and none has an empty
  one; every non-empty collapsed name of a raw candidate is the collapsed name of an
  entry. Each entry is a raw candidate, no raw candidate with the same collapsed name
  has a higher confidence, and among the raw candidates with that collapsed name and
  that confidence the entry is the first in the order of the passes. For a
  document with \<open><meta name="author" content="Jane Doe">\<close> and \<open><h1>Jane Doe</h1>\<close> the raw
  candidates are the meta one (0.9) and the heading one (0.7), and the result is the
  single candidate "Jane Doe" with confidence 0.9 and reason "meta[name=author]".
\<close>

theorem rank_candidates_best_first:
  "sorted (map (\<lambda>c. - confidence c) (rank_candidates cands))
   \<and> distinct (map (\<lambda>c. normalize_name (name c)) (rank_candidates cands))
   \<and> (\<lambda>c. normalize_name (name c)) ` set (rank_candidates cands)
       = (\<lambda>c. normalize_name (name c)) ` set cands - {[]}
   \<and> (\<forall>c\<in>set (rank_candidates cands).
         c \<in> set cands
         \<and> (\<forall>d\<in>set cands. normalize_name (name d) = normalize_name (name c)
               \<longrightarrow> confidence d \<le> confidence c)
         \<and> List.find (\<lambda>d. confidence d = confidence c
                           \<and> normalize_name (name d) = normalize_name (name c)) cands = Some c)
   \<and> raw_candidates name_doc =
       [\<lparr>name = str ''Jane Doe'', confidence = 9 / 10, reason = str ''meta[name=author]''\<rparr>,
        \<lparr>name = str ''Jane Doe'', confidence = 7 / 10, reason = str ''h1''\<rparr>]
   \<and> extract_name_candidates name_doc =
       [\<lparr>name = str ''Jane Doe'', confidence = 9 / 10, reason = str ''meta[name=author]''\<rparr>]"
proof -
  let ?f = "\<lambda>c::name_candidate. - confidence c"
  let ?nn = "\<lambda>c::name_candidate. normalize_name (name c)"
  let ?s = "sort_key ?f cands"
  have out: "rank_candidates cands = dedupe_names {} [] ?s"
    by (simp add: rank_candidates_def)
  have srt: "sorted (map ?f ?s)"
    by (rule sorted_sort_key)
  have 1: "sorted (map ?f (rank_candidates cands))"
    unfolding out by (rule dedupe_names_sorted [OF srt])
  have 2: "distinct (map ?nn (rank_candidates cands))"
    unfolding out by (rule dedupe_names_distinct)
  have 3: "?nn ` set (rank_candidates cands) = ?nn ` set cands - {[]}"
    unfolding out dedupe_names_image by simp
  have 4: "c \<in> set cands
         \<and> (\<forall>d\<in>set cands. ?nn d = ?nn c \<longrightarrow> confidence d \<le> confidence c)
         \<and> List.find (\<lambda>d. confidence d = confidence c \<and> ?nn d = ?nn c) cands = Some c"
    if c: "c \<in> set (rank_candidates cands)" for c
  proof -
    have cs: "c \<in> set cands"
      using c dedupe_names_subset [of "{}" ?s] unfolding out by auto
    have fs: "List.find (\<lambda>d. ?nn d = ?nn c) ?s = Some c"
      using c unfolding out by (rule dedupe_names_first)
    have best: "confidence d \<le> confidence c" if "d \<in> set cands" "?nn d = ?nn c" for d
      using find_sorted_least [OF fs srt, of d] that by simp
    have "List.find (\<lambda>d. ?f d = ?f c \<and> ?nn d = ?nn c) cands
            = List.find (\<lambda>d. ?nn d = ?nn c) (filter (\<lambda>d. ?f d = ?f c) cands)"
      by (simp add: find_filter)
    also have "\<dots> = List.find (\<lambda>d. ?nn d = ?nn c) (filter (\<lambda>d. ?f d = ?f c) ?s)"
      by (simp only: sort_key_stable)
    also have "\<dots> = List.find (\<lambda>d. ?f d = ?f c \<and> ?nn d = ?nn c) ?s"
      by (simp add: find_filter)
    also have "\<dots> = Some c"
      by (rule find_conj [OF fs]) simp
    finally have "List.find (\<lambda>d. confidence d = confidence c \<and> ?nn d = ?nn c) cands = Some c"
      by simp
    then show ?thesis using cs best by blast
  qed
  have raw: "raw_candidates name_doc =
       [\<lparr>name = str ''Jane Doe'', confidence = 9 / 10, reason = str ''meta[name=author]''\<rparr>,
        \<lparr>name = str ''Jane Doe'', confidence = 7 / 10, reason = str ''h1''\<rparr>]"
    by (simp add: name_doc_def name_defs tree_defs string_defs ci_eq_def Let_def)
  have 5: "extract_name_candidates name_doc =
       [\<lparr>name = str ''Jane Doe'', confidence = 9 / 10, reason = str ''meta[name=author]''\<rparr>]"
    by (simp add: extract_name_candidates_def raw rank_candidates_def normalize_name_def
        split_ws_eval is_space_def Let_def)
  show ?thesis
    using 1 2 3 4 raw 5 by blast
qed

theorem rank_candidates_best_first_witness:
  "rank_candidates name_list =
     [\<lparr>name = str ''Jane Doe'', confidence = 9 / 10, reason = str ''meta[name=author]''\<rparr>,
      \<lparr>name = str ''Acme'', confidence = 8 / 10, reason = str ''id contains contact''\<rparr>]
   \<and> \<lparr>name = str ''Jane Doe'', confidence = 9 / 10, reason = str ''meta[name=author]''\<rparr> \<in> set name_list
   \<and> List.find (\<lambda>d. confidence d = 9 / 10 \<and> normalize_name (name d) = str ''Jane Doe'') name_list
       = Some \<lparr>name = str ''Jane Doe'', confidence = 9 / 10, reason = str ''meta[name=author]''\<rparr>"
proof -
  have r: "rank_candidates name_list =
     [\<lparr>name = str ''Jane Doe'', confidence = 9 / 10, reason = str ''meta[name=author]''\<rparr>,
      \<lparr>name = str ''Acme'', confidence = 8 / 10, reason = str ''id contains contact''\<rparr>]"
    by (simp add: name_list_def rank_candidates_def normalize_name_def split_ws_eval is_space_def Let_def)
  have n: "normalize_name (str ''Jane Doe'') = str ''Jane Doe''"
    by (simp add: normalize_name_def split_ws_eval is_space_def)
  have m: "\<lparr>name = str ''Jane Doe'', confidence = 9 / 10, reason = str ''meta[name=author]''\<rparr>
             \<in> set (rank_candidates name_list)"
    unfolding r by simp
  from rank_candidates_best_first [of name_list] m
  have "\<lparr>name = str ''Jane Doe'', confidence = 9 / 10, reason = str ''meta[name=author]''\<rparr> \<in> set name_list
    \<and> List.find (\<lambda>d. confidence d = confidence \<lparr>name = str ''Jane Doe'', confidence = 9 / 10, reason = str ''meta[name=author]''\<rparr>
            \<and> normalize_name (name d) = normalize_name (name \<lparr>name = str ''Jane Doe'', confidence = 9 / 10, reason = str ''meta[name=author]''\<rparr>)) name_list
       = Some \<lparr>name = str ''Jane Doe'', confidence = 9 / 10, reason = str ''meta[name=author]''\<rparr>"
    by blast
  then show ?thesis
    using r n by simp
qed

subsection \<open>Running the crawl again\<close>



































end
